theory Spec2Isabelle
  imports Complex_Main
begin

section \<open>JavaScript values used by the content script\<close>

text \<open>
  Strings are character lists.  \<open>String.prototype.includes\<close>, \<open>toLowerCase\<close> (on the
  ASCII letters) and \<open>substring(0, n)\<close> are the three string operations the content
  script uses.
\<close>

fun startsWith :: "string \<Rightarrow> string \<Rightarrow> bool" where
  "startsWith s [] = True"
| "startsWith [] (c # cs) = False"
| "startsWith (x # xs) (c # cs) = (x = c \<and> startsWith xs cs)"

fun strIncludes :: "string \<Rightarrow> string \<Rightarrow> bool" where
  "strIncludes [] sub = (sub = [])"
| "strIncludes (x # xs) sub = (startsWith (x # xs) sub \<or> strIncludes xs sub)"

text \<open>
  An upper-case ASCII letter (codes 65 to 90) becomes the letter 32 above it: bit 5,
  clear in these codes, is set.
\<close>

definition lowerChar :: "char \<Rightarrow> char" where
  "lowerChar c =
     (let n = (of_char c :: nat) in
      if 65 \<le> n \<and> n \<le> 90
      then (case c of Char b0 b1 b2 b3 b4 b5 b6 b7 \<Rightarrow> Char b0 b1 b2 b3 b4 True b6 b7)
      else c)"

definition toLowerCase :: "string \<Rightarrow> string" where
  "toLowerCase s = map lowerChar s"

definition substring0 :: "nat \<Rightarrow> string \<Rightarrow> string" where
  "substring0 n s = take n s"

text \<open>\<open>x || ''\<close> on a string \<open>x\<close>: the empty string is the only falsy string.\<close>

definition orEmpty :: "string \<Rightarrow> string" where
  "orEmpty x = (if x = [] then [] else x)"

section \<open>Data model\<close>

type_synonym elem = nat

text \<open>The settings object delivered by \<open>GET_SETTINGS\<close> and \<open>UPDATE_FILTERS\<close>.\<close>

record settings =
  enabled :: bool
  filterMode :: string
  intensityLevel :: string
  whitelistedDomains :: "string list"
  blacklistedDomains :: "string list"
  showPlaceholders :: bool
  showClickToReveal :: bool

text \<open>
  \<open>originalData\<close> as \<open>replaceElement\<close> stores it in \<open>element._xsafeData\<close> (the parent and
  sibling references are never read again and are left out).
\<close>

record originalData =
  otype :: string
  originalDisplay :: string
  originalVisibility :: string

text \<open>A placeholder \<open>div\<close>; \<open>attached\<close> tells whether it is in the document.\<close>

datatype placeholder = Placeholder (attached: bool)

text \<open>
  The exceptions the content script can raise, and what \<open>element.parentNode\<close> is:
  \<open>null\<close> for a detached element, the document for the root element, and for every
  other element of the page an element (or a fragment), which takes a placeholder as
  a further child.
\<close>

datatype error = TypeError | HierarchyRequestError

datatype parentKind = NoParent | DocumentParent | ElementParent

text \<open>
  What the content script reads and writes on an element.  \<open>src\<close> is \<open>[]\<close> where the
  property is empty or undefined; \<open>testid\<close> and \<open>alt\<close> are the results of
  \<open>getAttribute\<close> (\<open>None\<close> is \<open>null\<close>); \<open>outerHTML\<close>, \<open>rectWidth\<close> and \<open>rectHeight\<close> are
  what \<open>outerHTML\<close> and \<open>getBoundingClientRect\<close> return; \<open>videoMatch\<close> and \<open>imageMatch\<close>
  say whether the element is selected by the video selector of \<open>scanForVideos\<close> and the
  image selector of \<open>scanForImages\<close>; \<open>xsafeId\<close> is the number \<open>k\<close> of the attribute
  \<open>data-xsafe-id="xsafe-k"\<close>, \<open>containerChild\<close> the attribute
  \<open>data-xsafe-container-child\<close> and \<open>parent\<close> the kind of \<open>parentNode\<close>.
\<close>

record node =
  tagName :: string
  src :: string
  outerHTML :: string
  testid :: "string option"
  alt :: "string option"
  rectWidth :: real
  rectHeight :: real
  videoMatch :: bool
  imageMatch :: bool
  display :: string
  visibility :: string
  xsafeData :: "originalData option"
  xsafePlaceholder :: "placeholder option"
  xsafeId :: "nat option"
  containerChild :: bool
  parent :: parentKind

text \<open>
  The fields of \<open>XSafeContentFilter\<close>, together with the page it runs on: the host name of
  \<open>window.location\<close>, the elements of the document in document order, the descendants
  of each element, the element store, and the two reads whose answer the browser
  computes from the state of the whole page: \<open>boundingRect ns e\<close> is the width and
  height that \<open>getBoundingClientRect\<close> returns for \<open>e\<close> when the elements are as in
  \<open>ns\<close> (hidden content has a box of 0 by 0, and hiding or inserting reflows the rest),
  and \<open>serialized ns e\<close> is its \<open>outerHTML\<close> then (the \<open>style\<close> attribute is part of it).
  In the store, \<open>outerHTML\<close>, \<open>rectWidth\<close> and \<open>rectHeight\<close> are the values of the page as
  it was loaded.
\<close>

record engine =
  settings :: settings
  filteredElements :: "elem list"
  isFiltering :: bool
  uiElementCache :: "(string \<times> bool) list"
  maxFilteredElements :: nat
  lastScanTime :: int
  scanCooldown :: int
  elementCounter :: nat
  mutationObserver :: bool
  periodicScanInterval :: bool
  hostname :: string
  document :: "elem list"
  descendants :: "elem \<Rightarrow> elem list"
  nodes :: "elem \<Rightarrow> node"
  boundingRect :: "(elem \<Rightarrow> node) \<Rightarrow> elem \<Rightarrow> real \<times> real"
  serialized :: "(elem \<Rightarrow> node) \<Rightarrow> elem \<Rightarrow> string"

text \<open>
  \<open>Set\<close> and \<open>Map\<close> keep insertion order: a set is the list of its elements, oldest
  first, and a map the list of its entries, oldest first.
\<close>

definition setAdd :: "'a \<Rightarrow> 'a list \<Rightarrow> 'a list" where
  "setAdd x xs = (if x \<in> set xs then xs else xs @ [x])"

definition setDelete :: "'a \<Rightarrow> 'a list \<Rightarrow> 'a list" where
  "setDelete x xs = filter (\<lambda>y. y \<noteq> x) xs"

definition mapHas :: "('k \<times> 'v) list \<Rightarrow> 'k \<Rightarrow> bool" where
  "mapHas m k = (k \<in> set (map fst m))"

definition mapSet :: "'k \<Rightarrow> 'v \<Rightarrow> ('k \<times> 'v) list \<Rightarrow> ('k \<times> 'v) list" where
  "mapSet k v m =
     (if mapHas m k then map (\<lambda>(k', v'). if k' = k then (k', v) else (k', v')) m
      else m @ [(k, v)])"

definition mapDelete :: "'k \<Rightarrow> ('k \<times> 'v) list \<Rightarrow> ('k \<times> 'v) list" where
  "mapDelete k m = filter (\<lambda>(k', v'). k' \<noteq> k) m"

section \<open>The classifier \<open>isUIElement\<close>\<close>

definition cacheKey :: "node \<Rightarrow> string" where
  "cacheKey n = (if src n \<noteq> [] then src n else substring0 100 (outerHTML n))"

text \<open>The three marker tests; \<open>?.\<close> on \<open>null\<close> gives \<open>undefined\<close>, which is falsy.\<close>

definition hasMarker :: "node \<Rightarrow> bool" where
  "hasMarker n =
     ((case testid n of None \<Rightarrow> False | Some t \<Rightarrow> strIncludes t ''avatar'') \<or>
      (case alt n of None \<Rightarrow> False | Some a \<Rightarrow> strIncludes (toLowerCase a) ''avatar'') \<or>
      (case alt n of None \<Rightarrow> False | Some a \<Rightarrow> strIncludes (toLowerCase a) ''profile''))"

definition limitCache :: "(string \<times> bool) list \<Rightarrow> (string \<times> bool) list" where
  "limitCache c =
     (if length c > 500
      then (case c of [] \<Rightarrow> c | (firstKey, v) # rest \<Rightarrow> mapDelete firstKey c)
      else c)"

text \<open>The value of \<open>isUI\<close> that a cache miss computes.\<close>

definition looksLikeUI :: "node \<Rightarrow> bool" where
  "looksLikeUI n =
     (if hasMarker n then True
      else if rectWidth n < 80 \<and> rectHeight n < 80 then True
      else False)"

definition isUIElement :: "(string \<times> bool) list \<Rightarrow> node \<Rightarrow> bool \<times> (string \<times> bool) list" where
  "isUIElement c n =
     (let key = cacheKey n in
      if mapHas c key then (case map_of c key of Some b \<Rightarrow> (b, c) | None \<Rightarrow> (False, c))
      else
        let isUI = looksLikeUI n
        in (isUI, limitCache (mapSet key isUI c)))"

section \<open>The engine of the placeholder variant\<close>

text \<open>
  A method either returns or throws, and what it has written to the engine and the page
  before it throws stays written: the outcome carries the state in both cases.
\<close>

datatype outcome = Done engine | Threw error engine

fun engineOf :: "outcome \<Rightarrow> engine" where
  "engineOf (Done s) = s"
| "engineOf (Threw err s) = s"

fun threw :: "outcome \<Rightarrow> bool" where
  "threw (Done s) = False"
| "threw (Threw err s) = True"

text \<open>Sequencing: what follows a call runs only if the call returned.\<close>

fun andThen :: "outcome \<Rightarrow> (engine \<Rightarrow> outcome) \<Rightarrow> outcome" where
  "andThen (Done s) f = f s"
| "andThen (Threw err s) f = Threw err s"

text \<open>\<open>forEach\<close> over a list of elements: an exception in the callback ends the loop.\<close>

fun forEach :: "(elem \<Rightarrow> engine \<Rightarrow> outcome) \<Rightarrow> elem list \<Rightarrow> engine \<Rightarrow> outcome" where
  "forEach f [] s = Done s"
| "forEach f (e # es) s =
     (case f e s of Done s' \<Rightarrow> forEach f es s' | Threw err s' \<Rightarrow> Threw err s')"

text \<open>
  The element as \<open>isUIElement\<close> reads it in the current state of the page: \<open>outerHTML\<close>
  and the bounding box are the browser's answers for that state.
\<close>

definition view :: "engine \<Rightarrow> elem \<Rightarrow> node" where
  "view s e =
     (nodes s e)\<lparr>outerHTML := serialized s (nodes s) e,
                  rectWidth := fst (boundingRect s (nodes s) e),
                  rectHeight := snd (boundingRect s (nodes s) e)\<rparr>"

definition isWhitelisted :: "engine \<Rightarrow> bool" where
  "isWhitelisted s = (hostname s \<in> set (whitelistedDomains (settings s)))"

definition isBlacklisted :: "engine \<Rightarrow> bool" where
  "isBlacklisted s = (hostname s \<in> set (blacklistedDomains (settings s)))"

definition shouldFilter :: "engine \<Rightarrow> elem \<Rightarrow> string \<Rightarrow> bool" where
  "shouldFilter s e ty =
     (if intensityLevel (settings s) = ''permissive'' then False
      else if isBlacklisted s then True
      else True)"

definition shouldFilterVideos :: "engine \<Rightarrow> bool" where
  "shouldFilterVideos s = (filterMode (settings s) \<in> set [''videos'', ''both''])"

definition shouldFilterImages :: "engine \<Rightarrow> bool" where
  "shouldFilterImages s = (filterMode (settings s) \<in> set [''images'', ''both''])"

text \<open>
  \<open>replaceElement\<close>.  With \<open>showPlaceholders\<close>, \<open>element.parentNode.insertBefore\<close> comes
  first: it throws a \<open>TypeError\<close> when \<open>parentNode\<close> is \<open>null\<close> and a
  \<open>HierarchyRequestError\<close> when the parent is the document, which cannot take a second
  element child.  Nothing has been written by then.  Otherwise the element is hidden
  and recorded; the placeholder is attached only when it was inserted.  Both change
  the layout: from then on \<open>boundingRect\<close> and \<open>serialized\<close> are asked about the new
  store.
\<close>

definition hideAndRecord :: "elem \<Rightarrow> string \<Rightarrow> bool \<Rightarrow> engine \<Rightarrow> engine" where
  "hideAndRecord e ty inserted s =
     (let n = nodes s e;
          od = \<lparr>otype = ty, originalDisplay = display n, originalVisibility = visibility n\<rparr>;
          ph = Placeholder inserted;
          n' = n\<lparr>display := ''none'', xsafeData := Some od, xsafePlaceholder := Some ph\<rparr>
      in s\<lparr>filteredElements := setAdd e (filteredElements s), nodes := (nodes s)(e := n')\<rparr>)"

definition replaceElement :: "elem \<Rightarrow> string \<Rightarrow> engine \<Rightarrow> outcome" where
  "replaceElement e ty s =
     (if showPlaceholders (settings s)
      then (case parent (nodes s e) of
              NoParent \<Rightarrow> Threw TypeError s
            | DocumentParent \<Rightarrow> Threw HierarchyRequestError s
            | ElementParent \<Rightarrow> Done (hideAndRecord e ty True s))
      else Done (hideAndRecord e ty False s))"

definition filterVideo :: "elem \<Rightarrow> engine \<Rightarrow> outcome" where
  "filterVideo e s =
     (if isWhitelisted s \<or> e \<in> set (filteredElements s) then Done s
      else if shouldFilter s e ''video'' then replaceElement e ''video'' s
      else Done s)"

definition filterImage :: "elem \<Rightarrow> engine \<Rightarrow> outcome" where
  "filterImage e s =
     (if isWhitelisted s \<or> e \<in> set (filteredElements s) then Done s
      else if shouldFilter s e ''image'' then replaceElement e ''image'' s
      else Done s)"

text \<open>
  The loop of \<open>limitFilteredElements\<close>: \<open>i\<close> counts the removals still to do, the list
  is what the iterator has not yet returned.  An exhausted iterator returns
  \<open>undefined\<close>, for which the body does nothing.
\<close>

definition removePlaceholder :: "node \<Rightarrow> node" where
  "removePlaceholder n =
     (case xsafePlaceholder n of None \<Rightarrow> n
      | Some ph \<Rightarrow> n\<lparr>xsafePlaceholder := Some (Placeholder False)\<rparr>)"

fun evict :: "nat \<Rightarrow> elem list \<Rightarrow> engine \<Rightarrow> engine" where
  "evict 0 it s = s"
| "evict (Suc i) [] s = s"
| "evict (Suc i) (e # it) s =
     evict i it (s\<lparr>filteredElements := setDelete e (filteredElements s),
                   nodes := (nodes s)(e := removePlaceholder (nodes s e))\<rparr>)"

definition limitFilteredElements :: "engine \<Rightarrow> engine" where
  "limitFilteredElements s =
     (if length (filteredElements s) > maxFilteredElements s
      then evict (length (filteredElements s) - maxFilteredElements s) (filteredElements s) s
      else s)"

definition scanForVideos :: "engine \<Rightarrow> outcome" where
  "scanForVideos s =
     forEach filterVideo (filter (\<lambda>e. videoMatch (nodes s e)) (document s)) s"

text \<open>The callback of \<open>scanForImages\<close>: classify, then conceal what is not chrome.\<close>

definition scanImage :: "elem \<Rightarrow> engine \<Rightarrow> outcome" where
  "scanImage e s =
     (let (isUI, c) = isUIElement (uiElementCache s) (view s e);
          s' = s\<lparr>uiElementCache := c\<rparr>
      in if \<not> isUI then filterImage e s' else Done s')"

definition scanForImages :: "engine \<Rightarrow> outcome" where
  "scanForImages s =
     forEach scanImage (filter (\<lambda>e. imageMatch (nodes s e)) (document s)) s"


text \<open>
  \<open>scanExistingContent\<close> is the cooldown test followed by the scan proper, \<open>runScan\<close>:
  stamp the clock, trim the record set, scan for videos, scan for images.
\<close>

definition runScan :: "int \<Rightarrow> engine \<Rightarrow> outcome" where
  "runScan now s =
     (let s1 = s\<lparr>lastScanTime := now\<rparr>;
          s2 = limitFilteredElements s1
      in andThen (if shouldFilterVideos s2 then scanForVideos s2 else Done s2)
           (\<lambda>s3. if shouldFilterImages s3 then scanForImages s3 else Done s3))"

definition scanExistingContent :: "int \<Rightarrow> engine \<Rightarrow> outcome" where
  "scanExistingContent now s =
     (if now - lastScanTime s < scanCooldown s then Done s else runScan now s)"










section \<open>The direct-hiding variant of \<open>replaceElement\<close> and \<open>revealElement\<close>\<close>

text \<open>
  The attribute \<open>data-xsafe-id\<close> has the value \<open>xsafe-k\<close> for the counter value \<open>k\<close>;
  \<open>xsafeId\<close> holds \<open>k\<close>.  No placeholder is made: \<open>_xsafePlaceholder\<close> is \<open>null\<close>.
\<close>

definition replaceElement_direct :: "elem \<Rightarrow> string \<Rightarrow> engine \<Rightarrow> engine" where
  "replaceElement_direct e ty s =
     (let k = elementCounter s + 1;
          n = (nodes s e)\<lparr>xsafeId := Some k\<rparr>;
          od = \<lparr>otype = ty, originalDisplay = display n, originalVisibility = visibility n\<rparr>;
          n' = n\<lparr>display := ''none'', visibility := ''hidden'', xsafeData := Some od,
                 xsafePlaceholder := None\<rparr>
      in s\<lparr>elementCounter := k, filteredElements := setAdd e (filteredElements s),
           nodes := (nodes s)(e := n')\<rparr>)"

definition clearChildMarkers :: "elem list \<Rightarrow> (elem \<Rightarrow> node) \<Rightarrow> (elem \<Rightarrow> node)" where
  "clearChildMarkers ds ns = fold (\<lambda>d m. m(d := (m d)\<lparr>containerChild := False\<rparr>)) ds ns"

definition revealElement_direct :: "elem \<Rightarrow> engine \<Rightarrow> engine" where
  "revealElement_direct e s =
     (let childElements = filter (\<lambda>d. containerChild (nodes s d)) (descendants s e);
          ns = (if length childElements > 0 then clearChildMarkers childElements (nodes s)
                else nodes s);
          n = ns e;
          n1 = (case xsafeData n of
                  Some od \<Rightarrow> n\<lparr>display := orEmpty (originalDisplay od),
                                visibility := orEmpty (originalVisibility od)\<rparr>
                | None \<Rightarrow> n\<lparr>display := [], visibility := []\<rparr>);
          n2 = n1\<lparr>xsafeId := None\<rparr>
      in s\<lparr>filteredElements := setDelete e (filteredElements s), nodes := ns(e := n2)\<rparr>)"

section \<open>The classifier on untyped element objects\<close>


















section \<open>The classifier as the specification words it\<close>

text \<open>
  The specification's classifier, to compare with \<open>isUIElement\<close>: a node is chrome when
  its identifier (\<open>data-testid\<close>) or its descriptive text (\<open>alt\<close>) contains "avatar" or
  "profile" in any letter case; otherwise when both dimensions of its bounding box are
  below 80; otherwise it is not.
\<close>

definition specMarker :: "node \<Rightarrow> bool" where
  "specMarker n =
     ((case testid n of None \<Rightarrow> False
       | Some t \<Rightarrow> strIncludes (toLowerCase t) ''avatar'' \<or>
                  strIncludes (toLowerCase t) ''profile'') \<or>
      (case alt n of None \<Rightarrow> False
       | Some a \<Rightarrow> strIncludes (toLowerCase a) ''avatar'' \<or>
                  strIncludes (toLowerCase a) ''profile''))"

definition classify_spec :: "node \<Rightarrow> bool" where
  "classify_spec n =
     (if specMarker n then True
      else if rectWidth n < 80 \<and> rectHeight n < 80 then True
      else False)"

section \<open>Predicates of the properties\<close>

text \<open>An element is concealed when it has a record and its display is \<open>none\<close>.\<close>

definition concealed :: "engine \<Rightarrow> elem \<Rightarrow> bool" where
  "concealed s e = (e \<in> set (filteredElements s) \<and> display (nodes s e) = ''none'')"

text \<open>
  From \<open>s\<close> to \<open>s'\<close> nothing was restored: the visibility of every element is as it was,
  and its display is as it was or has become \<open>none\<close>.
\<close>

definition hidesOnly :: "engine \<Rightarrow> engine \<Rightarrow> bool" where
  "hidesOnly s s' =
     (\<forall>x. visibility (nodes s' x) = visibility (nodes s x) \<and>
          (display (nodes s' x) = display (nodes s x) \<or> display (nodes s' x) = ''none''))"


text \<open>
  What a scan leaves as it is on the way from \<open>s\<close> to \<open>s'\<close>: the settings, the page
  and the host, the limits, and on every element what the selectors, the marker tests
  and \<open>replaceElement\<close> read besides the style.
\<close>

definition sameFrame :: "engine \<Rightarrow> engine \<Rightarrow> bool" where
  "sameFrame s s' =
     (settings s' = settings s \<and> hostname s' = hostname s \<and> document s' = document s \<and>
      maxFilteredElements s' = maxFilteredElements s \<and> scanCooldown s' = scanCooldown s \<and>
      boundingRect s' = boundingRect s \<and> serialized s' = serialized s \<and>
      (\<forall>x. src (nodes s' x) = src (nodes s x) \<and> testid (nodes s' x) = testid (nodes s x) \<and>
           alt (nodes s' x) = alt (nodes s x) \<and>
           videoMatch (nodes s' x) = videoMatch (nodes s x) \<and>
           imageMatch (nodes s' x) = imageMatch (nodes s x) \<and>
           parent (nodes s' x) = parent (nodes s x)))"

section \<open>Example pages\<close>

definition exampleSettings :: settings where
  "exampleSettings =
     \<lparr>enabled = True, filterMode = ''both'', intensityLevel = ''moderate'',
      whitelistedDomains = [], blacklistedDomains = [], showPlaceholders = True,
      showClickToReveal = True\<rparr>"

definition videoNode :: node where
  "videoNode =
     \<lparr>tagName = ''VIDEO'', src = [], outerHTML = ''<video></video>'', testid = None,
      alt = None, rectWidth = 640, rectHeight = 360, videoMatch = True, imageMatch = False,
      display = [], visibility = [], xsafeData = None, xsafePlaceholder = None,
      xsafeId = None, containerChild = False, parent = ElementParent\<rparr>"

text \<open>A video that the placeholder variant has concealed; its display was \<open>block\<close>.\<close>

definition hiddenNode :: node where
  "hiddenNode =
     videoNode\<lparr>display := ''none'',
                xsafeData := Some \<lparr>otype = ''video'', originalDisplay = ''block'',
                                   originalVisibility = []\<rparr>,
                xsafePlaceholder := Some (Placeholder True)\<rparr>"

text \<open>A tweet photo, an avatar with the same \<open>src\<close>, and a photo in a profile banner.\<close>

definition photoNode :: node where
  "photoNode =
     \<lparr>tagName = ''IMG'', src = ''https://pbs.twimg.com/media/a.jpg'',
      outerHTML = ''<img>'', testid = None,
      alt = None, rectWidth = 600, rectHeight = 400, videoMatch = False, imageMatch = True,
      display = [], visibility = [], xsafeData = None, xsafePlaceholder = None,
      xsafeId = None, containerChild = False, parent = ElementParent\<rparr>"

definition avatarNode :: node where
  "avatarNode = photoNode\<lparr>alt := Some ''Avatar of user'', rectWidth := 48, rectHeight := 48\<rparr>"

definition bannerNode :: node where
  "bannerNode = photoNode\<lparr>testid := Some ''profile-banner''\<rparr>"

text \<open>
  The root element of a page that holds a video: \<open>checkForVideo\<close> finds a video inside
  it and passes it to \<open>filterVideo\<close>.
\<close>

definition rootNode :: node where
  "rootNode =
     videoNode\<lparr>tagName := ''HTML'', outerHTML := ''<html></html>'', videoMatch := False,
                rectWidth := 1280, rectHeight := 4000, parent := DocumentParent\<rparr>"

text \<open>
  The browser of the examples: a hidden element has a box of 0 by 0, every other
  element the box and the \<open>outerHTML\<close> of the page as loaded.
\<close>

definition pageRect :: "(elem \<Rightarrow> node) \<Rightarrow> elem \<Rightarrow> real \<times> real" where
  "pageRect ns e =
     (if display (ns e) = ''none'' then (0, 0) else (rectWidth (ns e), rectHeight (ns e)))"

definition pageHTML :: "(elem \<Rightarrow> node) \<Rightarrow> elem \<Rightarrow> string" where
  "pageHTML ns e = outerHTML (ns e)"

text \<open>The engine as the constructor leaves it, on the page \<open>x.com\<close>.\<close>

definition newEngine :: "elem list \<Rightarrow> (elem \<Rightarrow> node) \<Rightarrow> engine" where
  "newEngine doc ns =
     \<lparr>settings = exampleSettings, filteredElements = [], isFiltering = False,
      uiElementCache = [], maxFilteredElements = 200, lastScanTime = 0, scanCooldown = 2000,
      elementCounter = 0, mutationObserver = False, periodicScanInterval = False,
      hostname = ''x.com'', document = doc, descendants = (\<lambda>e. []), nodes = ns,
      boundingRect = pageRect, serialized = pageHTML\<rparr>"

text \<open>One video on a deny-listed page, with the permissive intensity.\<close>

definition denyListedEngine :: engine where
  "denyListedEngine =
     (newEngine [0] (\<lambda>e. videoNode))
       \<lparr>settings := exampleSettings\<lparr>intensityLevel := ''permissive'',
                                      blacklistedDomains := [''x.com'']\<rparr>\<rparr>"

text \<open>One video on an allow-listed page, and a page of which only the root is looked at.\<close>

definition allowListedEngine :: engine where
  "allowListedEngine =
     (newEngine [0] (\<lambda>e. videoNode))
       \<lparr>settings := exampleSettings\<lparr>whitelistedDomains := [''x.com'']\<rparr>\<rparr>"

definition rootEngine :: engine where
  "rootEngine = newEngine [0] (\<lambda>e. rootNode)"

text \<open>A page of 201 videos, before the first scan and with all of them concealed.\<close>

definition videoPage :: engine where
  "videoPage =
     (newEngine [0..<201] (\<lambda>e. videoNode))
       \<lparr>settings := exampleSettings\<lparr>filterMode := ''videos''\<rparr>\<rparr>"

definition crowdedEngine :: engine where
  "crowdedEngine =
     (newEngine [0..<201] (\<lambda>e. hiddenNode))
       \<lparr>filteredElements := [0..<201], isFiltering := True, lastScanTime := 1700000000000\<rparr>"




text \<open>
  A video player that holds a photo: element 0 is the container, matched by the video
  selector, and element 1 the photo inside it, matched by the image selector.  The
  box of the photo is 0 by 0 once the photo or the container is hidden.
\<close>

definition playerNode :: node where
  "playerNode = videoNode\<lparr>tagName := ''DIV'', outerHTML := ''<div></div>'',
                          testid := Some ''videoPlayer''\<rparr>"

definition nestedRect :: "(elem \<Rightarrow> node) \<Rightarrow> elem \<Rightarrow> real \<times> real" where
  "nestedRect ns e =
     (if display (ns e) = ''none'' \<or> (e = 1 \<and> display (ns 0) = ''none'') then (0, 0)
      else (rectWidth (ns e), rectHeight (ns e)))"

definition nestedPage :: engine where
  "nestedPage =
     (newEngine [0, 1] (\<lambda>e. if e = 0 then playerNode else photoNode))
       \<lparr>boundingRect := nestedRect\<rparr>"

text \<open>A page with one photo, and an element object whose \<open>data-testid\<close> is the number 5.\<close>

definition photoPage :: engine where
  "photoPage = newEngine [0] (\<lambda>e. photoNode)"


section \<open>Properties\<close>

subsection \<open>Strings, sets and maps\<close>

lemma lowerChar_adds_32:
  "65 \<le> (of_char c :: nat) \<Longrightarrow> (of_char c :: nat) \<le> 90 \<Longrightarrow>
   (of_char (lowerChar c) :: nat) = of_char c + 32"
  by (cases c) (auto simp: lowerChar_def Let_def of_bool_def split: if_splits)

lemma orEmpty_id [simp]: "orEmpty x = x"
  by (simp add: orEmpty_def)

lemma setDelete_absent [simp]: "x \<notin> set (setDelete x xs)"
  by (simp add: setDelete_def)

lemma setDelete_head: "x \<notin> set xs \<Longrightarrow> setDelete x (x # xs) = xs"
  by (auto simp: setDelete_def filter_id_conv)

lemma setAdd_member [simp]: "x \<in> set (setAdd x xs)"
  by (simp add: setAdd_def)

lemma set_setAdd [simp]: "set (setAdd x xs) = insert x (set xs)"
  by (auto simp: setAdd_def)

lemma setAdd_distinct: "distinct xs \<Longrightarrow> distinct (setAdd x xs)"
  by (simp add: setAdd_def)

lemma count_list_distinct_member:
  "distinct xs \<Longrightarrow> x \<in> set xs \<Longrightarrow> count_list xs x = 1"
  by (induction xs) (auto simp: count_list_0_iff)

lemma map_of_mapDelete:
  "map_of (mapDelete d m) k = (if k = d then None else map_of m k)"
  by (induction m) (auto simp: mapDelete_def)

lemma mapHas_map_of: "mapHas m k = (map_of m k \<noteq> None)"
  by (simp add: mapHas_def map_of_eq_None_iff)

lemma map_of_mapSet_new:
  "\<not> mapHas m k \<Longrightarrow> map_of (mapSet k v m) k = Some v"
  by (simp add: mapSet_def mapHas_map_of map_add_Some_iff)

subsection \<open>Outcomes and iteration\<close>

lemma andThen_cases:
  "andThen r f = (case r of Done s \<Rightarrow> f s | Threw err s \<Rightarrow> Threw err s)"
  by (cases r) simp_all

lemma andThen_noop:
  assumes "\<And>s'. r = Done s' \<Longrightarrow> f s' = Done s'"
  shows "andThen r f = r"
  using assms by (cases r) simp_all

lemma andThen_inv:
  assumes "P (engineOf r)" and "\<And>s'. r = Done s' \<Longrightarrow> P (engineOf (f s'))"
  shows "P (engineOf (andThen r f))"
  using assms by (cases r) simp_all


lemma forEach_inv:
  assumes "P s" and "\<And>e s. e \<in> set es \<Longrightarrow> P s \<Longrightarrow> P (engineOf (f e s))"
  shows "P (engineOf (forEach f es s))"
  using assms
proof (induction es arbitrary: s)
  case Nil
  then show ?case by simp
next
  case (Cons e es)
  have step: "P (engineOf (f e s))" using Cons.prems by simp
  show ?case
  proof (cases "f e s")
    case (Done s')
    have "P (engineOf (forEach f es s'))"
    proof (rule Cons.IH)
      show "P s'" using step Done by simp
    next
      fix x t
      assume "x \<in> set es" and "P t"
      then show "P (engineOf (f x t))" using Cons.prems(2) by simp
    qed
    with Done show ?thesis by simp
  next
    case (Threw err s')
    with step show ?thesis by simp
  qed
qed

lemma forEach_frame:
  assumes "\<And>e s. g (engineOf (f e s)) = g s"
  shows "g (engineOf (forEach f es s)) = g s"
  by (rule forEach_inv [where P = "\<lambda>s'. g s' = g s"]) (simp_all add: assms)


subsection \<open>One concealment\<close>

lemma hideAndRecord_fields [simp]:
  "settings (hideAndRecord e ty b s) = settings s"
  "hostname (hideAndRecord e ty b s) = hostname s"
  "document (hideAndRecord e ty b s) = document s"
  "maxFilteredElements (hideAndRecord e ty b s) = maxFilteredElements s"
  "scanCooldown (hideAndRecord e ty b s) = scanCooldown s"
  "lastScanTime (hideAndRecord e ty b s) = lastScanTime s"
  "uiElementCache (hideAndRecord e ty b s) = uiElementCache s"
  "boundingRect (hideAndRecord e ty b s) = boundingRect s"
  "serialized (hideAndRecord e ty b s) = serialized s"
  "filteredElements (hideAndRecord e ty b s) = setAdd e (filteredElements s)"
  by (simp_all add: hideAndRecord_def Let_def)

lemma hideAndRecord_nodes [simp]:
  "nodes (hideAndRecord e ty b s) x =
     (if x = e
      then (nodes s e)\<lparr>display := ''none'',
             xsafeData := Some \<lparr>otype = ty, originalDisplay = display (nodes s e),
                                originalVisibility = visibility (nodes s e)\<rparr>,
             xsafePlaceholder := Some (Placeholder b)\<rparr>
      else nodes s x)"
  by (simp add: hideAndRecord_def Let_def)

lemma hideAndRecord_cache:
  "hideAndRecord e ty b (s\<lparr>uiElementCache := c\<rparr>) = (hideAndRecord e ty b s)\<lparr>uiElementCache := c\<rparr>"
  by (simp add: hideAndRecord_def Let_def)

lemma replaceElement_cases:
  "(\<exists>err. replaceElement e ty s = Threw err s) \<or>
   (\<exists>b. replaceElement e ty s = Done (hideAndRecord e ty b s))"
  by (cases "parent (nodes s e)") (auto simp: replaceElement_def)

lemma filterVideo_inv:
  assumes "P s" and "\<And>b. e \<notin> set (filteredElements s) \<Longrightarrow> P (hideAndRecord e ''video'' b s)"
  shows "P (engineOf (filterVideo e s))"
  using assms replaceElement_cases [of e "''video''" s]
  by (auto simp: filterVideo_def)

lemma filterImage_inv:
  assumes "P s" and "\<And>b. e \<notin> set (filteredElements s) \<Longrightarrow> P (hideAndRecord e ''image'' b s)"
  shows "P (engineOf (filterImage e s))"
  using assms replaceElement_cases [of e "''image''" s]
  by (auto simp: filterImage_def)

lemma scanImage_inv:
  assumes "P (s\<lparr>uiElementCache := snd (isUIElement (uiElementCache s) (view s e))\<rparr>)"
    and "\<And>b. e \<notin> set (filteredElements s) \<Longrightarrow>
           \<not> fst (isUIElement (uiElementCache s) (view s e)) \<Longrightarrow>
           P ((hideAndRecord e ''image'' b s)
                \<lparr>uiElementCache := snd (isUIElement (uiElementCache s) (view s e))\<rparr>)"
  shows "P (engineOf (scanImage e s))"
proof (cases "fst (isUIElement (uiElementCache s) (view s e))")
  case True
  with assms(1) show ?thesis
    by (simp add: scanImage_def Let_def case_prod_beta)
next
  case False
  let ?s' = "s\<lparr>uiElementCache := snd (isUIElement (uiElementCache s) (view s e))\<rparr>"
  have "P (engineOf (filterImage e ?s'))"
  proof (rule filterImage_inv)
    show "P ?s'" by (rule assms(1))
  next
    fix b
    assume "e \<notin> set (filteredElements ?s')"
    then have "e \<notin> set (filteredElements s)" by simp
    from assms(2) [OF this False] show "P (hideAndRecord e ''image'' b ?s')"
      by (simp add: hideAndRecord_cache)
  qed
  with False show ?thesis
    by (simp add: scanImage_def Let_def case_prod_beta)
qed

lemma filterVideo_hides:
  assumes "\<not> isWhitelisted s" and "intensityLevel (settings s) \<noteq> ''permissive''"
    and "e \<notin> set (filteredElements s)"
    and "\<not> showPlaceholders (settings s) \<or> parent (nodes s e) = ElementParent"
  shows "filterVideo e s = Done (hideAndRecord e ''video'' (showPlaceholders (settings s)) s)"
  using assms by (auto simp: filterVideo_def shouldFilter_def replaceElement_def)

lemma filterImage_hides:
  assumes "\<not> isWhitelisted s" and "intensityLevel (settings s) \<noteq> ''permissive''"
    and "e \<notin> set (filteredElements s)"
    and "\<not> showPlaceholders (settings s) \<or> parent (nodes s e) = ElementParent"
  shows "filterImage e s = Done (hideAndRecord e ''image'' (showPlaceholders (settings s)) s)"
  using assms by (auto simp: filterImage_def shouldFilter_def replaceElement_def)




subsection \<open>What a scan leaves alone\<close>

lemma sameFrame_refl [simp]: "sameFrame s s"
  by (simp add: sameFrame_def)

lemma sameFrame_cache [simp]: "sameFrame s (t\<lparr>uiElementCache := c\<rparr>) = sameFrame s t"
  by (simp add: sameFrame_def)

lemma sameFrame_clock [simp]: "sameFrame s (t\<lparr>lastScanTime := u\<rparr>) = sameFrame s t"
  by (simp add: sameFrame_def)

lemma sameFrame_hideAndRecord [simp]:
  "sameFrame s (hideAndRecord e ty b t) = sameFrame s t"
  by (auto simp: sameFrame_def)


lemma sameFrame_policy:
  assumes "sameFrame s s'"
  shows "isWhitelisted s' = isWhitelisted s"
    and "shouldFilterVideos s' = shouldFilterVideos s"
    and "shouldFilterImages s' = shouldFilterImages s"
    and "settings s' = settings s"
    and "document s' = document s"
    and "scanCooldown s' = scanCooldown s"
    and "maxFilteredElements s' = maxFilteredElements s"
    and "boundingRect s' = boundingRect s"
    and "serialized s' = serialized s"
  using assms
  by (simp_all add: sameFrame_def isWhitelisted_def shouldFilterVideos_def
      shouldFilterImages_def)


lemma filterVideo_sameFrame: "sameFrame s t \<Longrightarrow> sameFrame s (engineOf (filterVideo e t))"
  by (rule filterVideo_inv) simp_all

lemma filterImage_sameFrame: "sameFrame s t \<Longrightarrow> sameFrame s (engineOf (filterImage e t))"
  by (rule filterImage_inv) simp_all

lemma scanImage_sameFrame: "sameFrame s t \<Longrightarrow> sameFrame s (engineOf (scanImage e t))"
  by (rule scanImage_inv) simp_all

lemma forEach_filterVideo_sameFrame:
  "sameFrame s t \<Longrightarrow> sameFrame s (engineOf (forEach filterVideo es t))"
  by (rule forEach_inv) (simp_all add: filterVideo_sameFrame)

lemma forEach_scanImage_sameFrame:
  "sameFrame s t \<Longrightarrow> sameFrame s (engineOf (forEach scanImage es t))"
  by (rule forEach_inv) (simp_all add: scanImage_sameFrame)

lemma removePlaceholder_style [simp]:
  "display (removePlaceholder n) = display n"
  "visibility (removePlaceholder n) = visibility n"
  "xsafeData (removePlaceholder n) = xsafeData n"
  "src (removePlaceholder n) = src n"
  "testid (removePlaceholder n) = testid n"
  "alt (removePlaceholder n) = alt n"
  "videoMatch (removePlaceholder n) = videoMatch n"
  "imageMatch (removePlaceholder n) = imageMatch n"
  "parent (removePlaceholder n) = parent n"
  by (simp_all add: removePlaceholder_def split: option.splits)

lemma removePlaceholder_placeholder:
  "xsafePlaceholder (removePlaceholder n)
     = map_option (\<lambda>p. Placeholder False) (xsafePlaceholder n)"
  by (simp add: removePlaceholder_def split: option.splits)

lemma removePlaceholder_idem [simp]:
  "removePlaceholder (removePlaceholder n) = removePlaceholder n"
  by (simp add: removePlaceholder_def split: option.splits)

lemma evict_fields:
  "evict i it s = s\<lparr>filteredElements := filteredElements (evict i it s),
                     nodes := nodes (evict i it s)\<rparr>"
  by (induction i it s rule: evict.induct) simp_all

lemma evict_nodes:
  "nodes (evict i it s) x
     = (if x \<in> set (take i it) then removePlaceholder (nodes s x) else nodes s x)"
  by (induction i it s rule: evict.induct) auto

lemma evict_style:
  "display (nodes (evict i it s) x) = display (nodes s x) \<and>
   visibility (nodes (evict i it s) x) = visibility (nodes s x) \<and>
   xsafeData (nodes (evict i it s) x) = xsafeData (nodes s x)"
  by (simp add: evict_nodes)



lemma evict_cache [simp]: "uiElementCache (evict i it s) = uiElementCache s"
  by (subst evict_fields) simp

lemma evict_clock [simp]: "lastScanTime (evict i it s) = lastScanTime s"
  by (subst evict_fields) simp


lemma limitFilteredElements_cache [simp]:
  "uiElementCache (limitFilteredElements s) = uiElementCache s"
  by (simp add: limitFilteredElements_def)

lemma limitFilteredElements_clock [simp]:
  "lastScanTime (limitFilteredElements s) = lastScanTime s"
  by (simp add: limitFilteredElements_def)




lemma runScan_inv:
  assumes "P (limitFilteredElements (s\<lparr>lastScanTime := now\<rparr>))"
    and "\<And>e t. P t \<Longrightarrow> P (engineOf (filterVideo e t))"
    and "\<And>e t. P t \<Longrightarrow> P (engineOf (scanImage e t))"
  shows "P (engineOf (runScan now s))"
proof -
  let ?s2 = "limitFilteredElements (s\<lparr>lastScanTime := now\<rparr>)"
  let ?V = "if shouldFilterVideos ?s2 then scanForVideos ?s2 else Done ?s2"
  have v: "P (engineOf ?V)"
  proof (cases "shouldFilterVideos ?s2")
    case True
    have "P (engineOf (forEach filterVideo
                (filter (\<lambda>e. videoMatch (nodes ?s2 e)) (document ?s2)) ?s2))"
      by (rule forEach_inv [where P = P]) (simp_all add: assms(1,2))
    with True show ?thesis by (simp add: scanForVideos_def)
  next
    case False
    with assms(1) show ?thesis by simp
  qed
  show ?thesis
    unfolding runScan_def Let_def
  proof (rule andThen_inv)
    show "P (engineOf ?V)" by (rule v)
  next
    fix s3
    assume "?V = Done s3"
    then have "engineOf ?V = s3" by simp
    with v have p3: "P s3" by simp
    show "P (engineOf (if shouldFilterImages s3 then scanForImages s3 else Done s3))"
    proof (cases "shouldFilterImages s3")
      case True
      have "P (engineOf (forEach scanImage
                  (filter (\<lambda>e. imageMatch (nodes s3 e)) (document s3)) s3))"
        by (rule forEach_inv [where P = P]) (simp_all add: p3 assms(3))
      with True show ?thesis by (simp add: scanForImages_def)
    next
      case False
      with p3 show ?thesis by simp
    qed
  qed
qed









subsection \<open>A scan restores nothing\<close>

lemma hidesOnly_refl [simp]: "hidesOnly s s"
  by (simp add: hidesOnly_def)


lemma hidesOnly_same_nodes: "nodes s' = nodes s \<Longrightarrow> hidesOnly s s'"
  by (simp add: hidesOnly_def)

lemma hidesOnly_cache [simp]: "hidesOnly s (t\<lparr>uiElementCache := c\<rparr>) = hidesOnly s t"
  by (simp add: hidesOnly_def)

lemma hidesOnly_hideAndRecord: "hidesOnly s t \<Longrightarrow> hidesOnly s (hideAndRecord e ty b t)"
  by (simp add: hidesOnly_def)


lemma filterImage_hidesOnly: "hidesOnly s t \<Longrightarrow> hidesOnly s (engineOf (filterImage e t))"
  by (rule filterImage_inv) (simp_all add: hidesOnly_hideAndRecord)





subsection \<open>Concealed elements stay concealed\<close>

lemma concealed_cache [simp]: "concealed (t\<lparr>uiElementCache := c\<rparr>) e = concealed t e"
  by (simp add: concealed_def)

lemma concealed_hideAndRecord: "concealed t e \<Longrightarrow> concealed (hideAndRecord x ty b t) e"
  by (simp add: concealed_def)

lemma concealed_hideAndRecord_it [simp]: "concealed (hideAndRecord e ty b t) e"
  by (simp add: concealed_def)


lemma filterImage_concealed: "concealed t e \<Longrightarrow> concealed (engineOf (filterImage x t)) e"
  by (rule filterImage_inv) (simp_all add: concealed_hideAndRecord)





subsection \<open>Reaching an element in a loop\<close>




subsection \<open>A scan that cannot throw\<close>




subsection \<open>A scan conceals the videos\<close>


subsection \<open>Where a chrome verdict can come from\<close>






subsection \<open>A scan conceals the images that are not taken for chrome\<close>





subsection \<open>Deny list and permissive intensity\<close>

text \<open>
  C1.  The claim: on a page whose domain is in \<open>blacklistedDomains\<close>, concealment proceeds
  even with the permissive intensity.  The code tests the intensity first: on the
  deny-listed page \<open>x.com\<close> with \<open>intensityLevel = permissive\<close>, \<open>shouldFilter\<close> is false,
  \<open>filterVideo\<close> returns with the engine as it is, and a full scan returns and has
  concealed nothing.
\<close>

theorem deny_list_permissive_not_concealed:
  "isBlacklisted denyListedEngine \<and> \<not> isWhitelisted denyListedEngine \<and>
   \<not> shouldFilter denyListedEngine 0 ''video'' \<and>
   filterVideo 0 denyListedEngine = Done denyListedEngine \<and>
   \<not> threw (scanExistingContent 1700000000000 denyListedEngine) \<and>
   filteredElements (engineOf (scanExistingContent 1700000000000 denyListedEngine)) = [] \<and>
   display (nodes (engineOf (scanExistingContent 1700000000000 denyListedEngine)) 0) = []"
  by (simp add: denyListedEngine_def newEngine_def exampleSettings_def videoNode_def
      isBlacklisted_def isWhitelisted_def shouldFilter_def filterVideo_def
      scanExistingContent_def runScan_def limitFilteredElements_def shouldFilterVideos_def
      shouldFilterImages_def scanForVideos_def scanForImages_def)

subsection \<open>Trimming the record set\<close>

lemma evict_drops_oldest:
  "distinct (filteredElements s) \<Longrightarrow>
   filteredElements (evict i (filteredElements s) s) = drop i (filteredElements s)"
proof (induction i arbitrary: s)
  case 0
  then show ?case by simp
next
  case (Suc i)
  show ?case
  proof (cases "filteredElements s")
    case Nil
    then show ?thesis by simp
  next
    case (Cons e rest)
    let ?s' = "s\<lparr>filteredElements := setDelete e (filteredElements s),
                   nodes := (nodes s)(e := removePlaceholder (nodes s e))\<rparr>"
    from Suc.prems Cons have fresh: "e \<notin> set rest" and d: "distinct rest" by simp_all
    have fe: "filteredElements ?s' = rest"
      using fresh by (simp add: Cons setDelete_head)
    from Suc.IH [of ?s'] d fe
    have "filteredElements (evict i rest ?s') = drop i rest" by simp
    then show ?thesis by (simp add: Cons)
  qed
qed

text \<open>
  C2, as the code has it.  When \<open>limitFilteredElements\<close> trims the record set, the oldest
  elements in excess of \<open>maxFilteredElements\<close> are dropped from it and their placeholders
  are taken out of the page (the placeholder of every other element is as it was); the
  display, the visibility and the saved original data of every element stay as they
  were: an evicted element is forgotten while still hidden, not restored.
\<close>

theorem eviction_forgets_without_restoring:
  assumes "distinct (filteredElements s)"
  shows "filteredElements (limitFilteredElements s)
           = drop (length (filteredElements s) - maxFilteredElements s) (filteredElements s) \<and>
         length (filteredElements (limitFilteredElements s))
           = min (length (filteredElements s)) (maxFilteredElements s) \<and>
         (\<forall>x. xsafePlaceholder (nodes (limitFilteredElements s) x)
                = (if x \<in> set (take (length (filteredElements s) - maxFilteredElements s)
                                  (filteredElements s))
                   then map_option (\<lambda>p. Placeholder False) (xsafePlaceholder (nodes s x))
                   else xsafePlaceholder (nodes s x))) \<and>
         (\<forall>x. display (nodes (limitFilteredElements s) x) = display (nodes s x) \<and>
              visibility (nodes (limitFilteredElements s) x) = visibility (nodes s x) \<and>
              xsafeData (nodes (limitFilteredElements s) x) = xsafeData (nodes s x))"
proof -
  have trim: "filteredElements (limitFilteredElements s)
                = drop (length (filteredElements s) - maxFilteredElements s) (filteredElements s)"
    using assms by (simp add: limitFilteredElements_def evict_drops_oldest)
  have len: "length (filteredElements (limitFilteredElements s))
               = min (length (filteredElements s)) (maxFilteredElements s)"
    by (simp add: trim)
  have ph: "xsafePlaceholder (nodes (limitFilteredElements s) x)
              = (if x \<in> set (take (length (filteredElements s) - maxFilteredElements s)
                                (filteredElements s))
                 then map_option (\<lambda>p. Placeholder False) (xsafePlaceholder (nodes s x))
                 else xsafePlaceholder (nodes s x))" for x
    by (simp add: limitFilteredElements_def evict_nodes removePlaceholder_placeholder)
  have style: "display (nodes (limitFilteredElements s) x) = display (nodes s x) \<and>
               visibility (nodes (limitFilteredElements s) x) = visibility (nodes s x) \<and>
               xsafeData (nodes (limitFilteredElements s) x) = xsafeData (nodes s x)" for x
    by (simp add: limitFilteredElements_def evict_style)
  from trim len ph style show ?thesis by blast
qed

theorem eviction_forgets_without_restoring_witness:
  "filteredElements (limitFilteredElements crowdedEngine) = [1..<201] \<and>
   length (filteredElements (limitFilteredElements crowdedEngine)) = 200 \<and>
   xsafePlaceholder (nodes crowdedEngine 0) = Some (Placeholder True) \<and>
   xsafePlaceholder (nodes (limitFilteredElements crowdedEngine) 0) = Some (Placeholder False) \<and>
   xsafePlaceholder (nodes (limitFilteredElements crowdedEngine) 1) = Some (Placeholder True) \<and>
   display (nodes (limitFilteredElements crowdedEngine) 0) = ''none''"
proof -
  have d: "distinct (filteredElements crowdedEngine)"
    by (simp add: crowdedEngine_def)
  have f: "filteredElements crowdedEngine = [0..<201]"
    by (simp add: crowdedEngine_def)
  have m: "maxFilteredElements crowdedEngine = 200"
    by (simp add: crowdedEngine_def newEngine_def)
  have n: "display (nodes crowdedEngine x) = ''none''"
    "xsafePlaceholder (nodes crowdedEngine x) = Some (Placeholder True)" for x
    by (simp_all add: crowdedEngine_def newEngine_def hiddenNode_def)
  have t: "take 1 [0..<201] = [0::nat]"
    by (simp add: take_Suc_conv_app_nth upt_rec)
  from eviction_forgets_without_restoring [OF d] show ?thesis
    by (simp add: f m n t)
qed

text \<open>
  C2, as the claim has it, fails: with 201 concealed videos whose display was \<open>block\<close>,
  the trim drops element 0 from the record set and leaves its display at \<open>none\<close>.
\<close>

theorem eviction_counterexample:
  "0 \<in> set (filteredElements crowdedEngine) \<and>
   0 \<notin> set (filteredElements (limitFilteredElements crowdedEngine)) \<and>
   display (nodes (limitFilteredElements crowdedEngine) 0) = ''none'' \<and>
   map_option originalDisplay (xsafeData (nodes crowdedEngine 0)) = Some ''block''"
proof -
  have f: "filteredElements crowdedEngine = [0..<201]"
    by (simp add: crowdedEngine_def)
  have m: "maxFilteredElements crowdedEngine = 200"
    by (simp add: crowdedEngine_def newEngine_def)
  have l: "limitFilteredElements crowdedEngine = evict 1 [0..<201] crowdedEngine"
    by (simp add: limitFilteredElements_def f m)
  from evict_drops_oldest [of crowdedEngine 1]
  have gone: "filteredElements (limitFilteredElements crowdedEngine) = [1..<201]"
    by (simp add: f l)
  have hidden: "display (nodes (limitFilteredElements crowdedEngine) 0) = ''none''"
    by (simp add: l evict_style) (simp add: crowdedEngine_def newEngine_def hiddenNode_def)
  have orig: "map_option originalDisplay (xsafeData (nodes crowdedEngine 0)) = Some ''block''"
    by (simp add: crowdedEngine_def newEngine_def hiddenNode_def)
  show ?thesis by (simp add: gone hidden orig) (simp add: f)
qed

subsection \<open>The size of the record set after a scan\<close>

lemma isWhitelisted_hideAndRecord [simp]:
  "isWhitelisted (hideAndRecord e ty b s) = isWhitelisted s"
  by (simp add: isWhitelisted_def)

lemma forEach_filterVideo_adds:
  assumes "\<not> isWhitelisted s" and "intensityLevel (settings s) \<noteq> ''permissive''"
    and "distinct es"
    and "\<not> showPlaceholders (settings s) \<or> (\<forall>x\<in>set es. parent (nodes s x) = ElementParent)"
  shows "\<exists>s'. forEach filterVideo es s = Done s' \<and>
              filteredElements s'
                = filteredElements s @ filter (\<lambda>e. e \<notin> set (filteredElements s)) es"
  using assms
proof (induction es arbitrary: s)
  case Nil
  then show ?case by simp
next
  case (Cons e es)
  from Cons.prems(3) have d: "distinct es" and fresh: "e \<notin> set es" by simp_all
  show ?case
  proof (cases "e \<in> set (filteredElements s)")
    case True
    then have same: "filterVideo e s = Done s" by (simp add: filterVideo_def)
    from Cons.prems(4)
    have "\<not> showPlaceholders (settings s) \<or> (\<forall>x\<in>set es. parent (nodes s x) = ElementParent)"
      by auto
    from Cons.IH [OF Cons.prems(1,2) d this] same True show ?thesis by simp
  next
    case False
    let ?s1 = "hideAndRecord e ''video'' (showPlaceholders (settings s)) s"
    from Cons.prems(4)
    have "\<not> showPlaceholders (settings s) \<or> parent (nodes s e) = ElementParent" by auto
    from filterVideo_hides [OF Cons.prems(1,2) False this]
    have hid: "filterVideo e s = Done ?s1" .
    have pol: "\<not> isWhitelisted ?s1" "intensityLevel (settings ?s1) \<noteq> ''permissive''"
      using Cons.prems(1,2) by simp_all
    have par: "\<not> showPlaceholders (settings ?s1) \<or>
               (\<forall>x\<in>set es. parent (nodes ?s1 x) = ElementParent)"
      using Cons.prems(4) by auto
    from Cons.IH [OF pol d par] obtain s' where
      run: "forEach filterVideo es ?s1 = Done s'" and
      fe: "filteredElements s'
             = filteredElements ?s1 @ filter (\<lambda>x. x \<notin> set (filteredElements ?s1)) es"
      by blast
    have "filter (\<lambda>x. x \<notin> set (filteredElements ?s1)) es
            = filter (\<lambda>x. x \<notin> set (filteredElements s)) es"
      using fresh by (intro filter_cong) auto
    with fe False have "filteredElements s'
        = filteredElements s @ filter (\<lambda>x. x \<notin> set (filteredElements s)) (e # es)"
      by (simp add: setAdd_def)
    with hid run show ?thesis by simp
  qed
qed

text \<open>
  C4.  The claim: between entry points the record set holds at most 200 elements.  The
  code trims the set at the start of a scan only, before the scan adds to it: the first
  scan of a page with 201 videos returns with 201 elements in \<open>filteredElements\<close>, with
  \<open>maxFilteredElements = 200\<close>.
\<close>

theorem scan_exceeds_cap:
  "\<not> threw (scanExistingContent 1700000000000 videoPage) \<and>
   maxFilteredElements (engineOf (scanExistingContent 1700000000000 videoPage)) = 200 \<and>
   length (filteredElements (engineOf (scanExistingContent 1700000000000 videoPage))) = 201"
proof -
  let ?s1 = "videoPage\<lparr>lastScanTime := 1700000000000\<rparr>"
  let ?I = "\<lambda>s3. if shouldFilterImages s3 then scanForImages s3 else Done s3"
  have run: "scanExistingContent 1700000000000 videoPage
               = andThen (forEach filterVideo [0..<201] ?s1) ?I"
    by (simp add: scanExistingContent_def runScan_def Let_def limitFilteredElements_def
        scanForVideos_def)
      (simp add: videoPage_def newEngine_def exampleSettings_def videoNode_def
        shouldFilterVideos_def)
  have w: "\<not> isWhitelisted ?s1" "intensityLevel (settings ?s1) \<noteq> ''permissive''"
    by (simp_all add: videoPage_def newEngine_def exampleSettings_def isWhitelisted_def)
  have par: "\<not> showPlaceholders (settings ?s1) \<or>
             (\<forall>x\<in>set [0..<201]. parent (nodes ?s1 x) = ElementParent)"
    by (simp add: videoPage_def newEngine_def videoNode_def)
  have fe: "filteredElements ?s1 = []"
    by (simp add: videoPage_def newEngine_def)
  from forEach_filterVideo_adds [OF w _ par] obtain s' where
    fin: "forEach filterVideo [0..<201] ?s1 = Done s'" and
    all: "filteredElements s' = [0..<201]"
    by (auto simp: fe)
  from forEach_filterVideo_sameFrame [of ?s1 ?s1 "[0..<201]"] fin
  have frame: "sameFrame ?s1 s'" by simp
  have "\<not> shouldFilterImages ?s1"
    by (simp add: shouldFilterImages_def videoPage_def newEngine_def exampleSettings_def)
  then have "\<not> shouldFilterImages s'" by (simp add: sameFrame_policy [OF frame])
  with run fin have result: "scanExistingContent 1700000000000 videoPage = Done s'" by simp
  have "maxFilteredElements s' = 200"
    by (simp add: sameFrame_policy [OF frame]) (simp add: videoPage_def newEngine_def)
  with result all show ?thesis by simp
qed

subsection \<open>The classifier never throws on an element\<close>








lemma strIncludes_Nil [simp]: "strIncludes [] (x # xs) = False"
  by simp





subsection \<open>Cooldown\<close>




subsection \<open>Conceal and reveal\<close>

lemma clearChildMarkers_style [simp]:
  "display (clearChildMarkers ds ns x) = display (ns x) \<and>
   visibility (clearChildMarkers ds ns x) = visibility (ns x) \<and>
   xsafeData (clearChildMarkers ds ns x) = xsafeData (ns x)"
  unfolding clearChildMarkers_def
  by (induction ds arbitrary: ns) simp_all

text \<open>
  C7.  \<open>replaceElement\<close> of the direct-hiding variant hides the element and records it;
  \<open>revealElement\<close> after it gives the element's display and visibility the values they
  had before \<open>replaceElement\<close>, takes it out of \<open>filteredElements\<close> and removes its
  \<open>data-xsafe-id\<close>.
\<close>

theorem reveal_restores_visibility_state:
  "display (nodes (replaceElement_direct e ty s) e) = ''none'' \<and>
   visibility (nodes (replaceElement_direct e ty s) e) = ''hidden'' \<and>
   e \<in> set (filteredElements (replaceElement_direct e ty s)) \<and>
   display (nodes (revealElement_direct e (replaceElement_direct e ty s)) e)
     = display (nodes s e) \<and>
   visibility (nodes (revealElement_direct e (replaceElement_direct e ty s)) e)
     = visibility (nodes s e) \<and>
   e \<notin> set (filteredElements (revealElement_direct e (replaceElement_direct e ty s))) \<and>
   xsafeId (nodes (revealElement_direct e (replaceElement_direct e ty s)) e) = None"
  by (simp add: replaceElement_direct_def revealElement_direct_def Let_def)

lemma filterImage_idem: "filterImage e (engineOf (filterImage e s)) = filterImage e s"
  using replaceElement_cases [of e "''image''" s]
  by (auto simp: filterImage_def)

lemma filterVideo_idem: "filterVideo e (engineOf (filterVideo e s)) = filterVideo e s"
  using replaceElement_cases [of e "''video''" s]
  by (auto simp: filterVideo_def)

lemma hideAndRecord_once:
  assumes "distinct (filteredElements s)"
  shows "count_list (filteredElements (hideAndRecord e ty b s)) e = 1"
  using assms by (simp add: count_list_distinct_member setAdd_distinct)

text \<open>
  C8, as the claim has it, fails.  On an allow-listed page \<open>filterVideo\<close> returns at once,
  and after two calls the record set holds no record of the element.  On the root
  element of a page, with placeholders shown, \<open>insertBefore\<close> throws before the element
  is recorded: both calls throw and the record set stays empty.
\<close>

theorem conceal_counterexample:
  "filterVideo 0 allowListedEngine = Done allowListedEngine \<and>
   filterVideo 0 (engineOf (filterVideo 0 allowListedEngine)) = Done allowListedEngine \<and>
   count_list (filteredElements allowListedEngine) 0 = 0 \<and>
   filterVideo 0 rootEngine = Threw HierarchyRequestError rootEngine \<and>
   filterVideo 0 (engineOf (filterVideo 0 rootEngine)) = Threw HierarchyRequestError rootEngine \<and>
   count_list (filteredElements rootEngine) 0 = 0"
  by (simp add: allowListedEngine_def rootEngine_def newEngine_def exampleSettings_def
      rootNode_def videoNode_def filterVideo_def isWhitelisted_def shouldFilter_def
      replaceElement_def)

text \<open>
  C8, as the code has it.  A second \<open>filterImage\<close> or \<open>filterVideo\<close> on the same element
  does what the first did and no more: if the first returned, the second returns the
  engine, page included, as the first left it.  For an element that has a record both
  return the engine as it is.  Where the page is not allow-listed, the intensity is not
  permissive and the placeholder can be inserted (placeholders are off, or the parent
  is an element), the first call returns, the record set holds the element exactly once
  after any number of calls, and an element that had no record is concealed.  Where
  the page is allow-listed or the intensity is permissive, an element without a record
  gets none.
\<close>

theorem conceal_twice_is_conceal_once:
  "filterImage e (engineOf (filterImage e s)) = filterImage e s \<and>
   filterVideo e (engineOf (filterVideo e s)) = filterVideo e s \<and>
   (e \<in> set (filteredElements s) \<longrightarrow> filterImage e s = Done s \<and> filterVideo e s = Done s) \<and>
   (distinct (filteredElements s) \<and> \<not> isWhitelisted s \<and>
    intensityLevel (settings s) \<noteq> ''permissive'' \<and>
    (showPlaceholders (settings s) \<longrightarrow> parent (nodes s e) = ElementParent) \<longrightarrow>
      (\<exists>s1. filterImage e s = Done s1 \<and> filterImage e s1 = Done s1 \<and>
            count_list (filteredElements s1) e = 1 \<and>
            (e \<notin> set (filteredElements s) \<longrightarrow> concealed s1 e)) \<and>
      (\<exists>s1. filterVideo e s = Done s1 \<and> filterVideo e s1 = Done s1 \<and>
            count_list (filteredElements s1) e = 1 \<and>
            (e \<notin> set (filteredElements s) \<longrightarrow> concealed s1 e))) \<and>
   (e \<notin> set (filteredElements s) \<and>
    (isWhitelisted s \<or> intensityLevel (settings s) = ''permissive'') \<longrightarrow>
      filterImage e s = Done s \<and> filterVideo e s = Done s)"
proof -
  have recorded: "filterImage e s = Done s \<and> filterVideo e s = Done s"
    if "e \<in> set (filteredElements s)"
    using that by (simp add: filterImage_def filterVideo_def)
  have exempt: "filterImage e s = Done s \<and> filterVideo e s = Done s"
    if "e \<notin> set (filteredElements s) \<and>
        (isWhitelisted s \<or> intensityLevel (settings s) = ''permissive'')"
    using that by (auto simp: filterImage_def filterVideo_def shouldFilter_def)
  have once:
    "(\<exists>s1. filterImage e s = Done s1 \<and> filterImage e s1 = Done s1 \<and>
           count_list (filteredElements s1) e = 1 \<and>
           (e \<notin> set (filteredElements s) \<longrightarrow> concealed s1 e)) \<and>
     (\<exists>s1. filterVideo e s = Done s1 \<and> filterVideo e s1 = Done s1 \<and>
           count_list (filteredElements s1) e = 1 \<and>
           (e \<notin> set (filteredElements s) \<longrightarrow> concealed s1 e))"
    if h: "distinct (filteredElements s) \<and> \<not> isWhitelisted s \<and>
           intensityLevel (settings s) \<noteq> ''permissive'' \<and>
           (showPlaceholders (settings s) \<longrightarrow> parent (nodes s e) = ElementParent)"
  proof (cases "e \<in> set (filteredElements s)")
    case True
    with h have "count_list (filteredElements s) e = 1"
      by (simp add: count_list_distinct_member)
    with recorded [OF True] True show ?thesis by simp
  next
    case False
    let ?b = "showPlaceholders (settings s)"
    from h have pol: "\<not> isWhitelisted s" "intensityLevel (settings s) \<noteq> ''permissive''"
      and par: "\<not> ?b \<or> parent (nodes s e) = ElementParent" and d: "distinct (filteredElements s)"
      by auto
    note i = filterImage_hides [OF pol False par]
    note v = filterVideo_hides [OF pol False par]
    have "filterImage e (hideAndRecord e ''image'' ?b s) = Done (hideAndRecord e ''image'' ?b s)"
      "filterVideo e (hideAndRecord e ''video'' ?b s) = Done (hideAndRecord e ''video'' ?b s)"
      by (simp_all add: filterImage_def filterVideo_def)
    with i v hideAndRecord_once [OF d] show ?thesis by simp
  qed
  from filterImage_idem [of e s] filterVideo_idem [of e s] recorded exempt once
  show ?thesis by blast
qed

theorem conceal_twice_is_conceal_once_witness:
  "(\<exists>s1. filterImage 0 photoPage = Done s1 \<and> filterImage 0 s1 = Done s1 \<and>
         count_list (filteredElements s1) 0 = 1 \<and> concealed s1 0) \<and>
   filterImage 0 allowListedEngine = Done allowListedEngine"
proof -
  have h: "distinct (filteredElements photoPage) \<and> \<not> isWhitelisted photoPage \<and>
           intensityLevel (settings photoPage) \<noteq> ''permissive'' \<and>
           (showPlaceholders (settings photoPage) \<longrightarrow> parent (nodes photoPage 0) = ElementParent)"
    by (simp add: photoPage_def newEngine_def exampleSettings_def isWhitelisted_def
        photoNode_def)
  have f: "0 \<notin> set (filteredElements photoPage)"
    by (simp add: photoPage_def newEngine_def)
  have a: "0 \<notin> set (filteredElements allowListedEngine) \<and>
           (isWhitelisted allowListedEngine \<or>
            intensityLevel (settings allowListedEngine) = ''permissive'')"
    by (simp add: allowListedEngine_def newEngine_def exampleSettings_def isWhitelisted_def)
  from conceal_twice_is_conceal_once [of 0 photoPage]
    conceal_twice_is_conceal_once [of 0 allowListedEngine] h f a
  show ?thesis by blast
qed

subsection \<open>The two scan requests of a settings update\<close>

lemma andThen_Done [simp]: "andThen r Done = r"
  by (cases r) simp_all








subsection \<open>A settings update that keeps the filter enabled\<close>




subsection \<open>The classifier and its cache\<close>

text \<open>
  C9, as the claim has it, fails: a large photo whose \<open>data-testid\<close> is
  \<open>profile-banner\<close> is chrome for the specification's classifier and is not for
  \<open>isUIElement\<close>, which looks for "avatar" only in \<open>data-testid\<close>, and there with the
  letter case as it stands.
\<close>

theorem marker_counterexample:
  "classify_spec bannerNode \<and> \<not> fst (isUIElement [] bannerNode)"
  by (simp add: classify_spec_def specMarker_def bannerNode_def photoNode_def
      isUIElement_def looksLikeUI_def cacheKey_def mapHas_def hasMarker_def
      toLowerCase_def lowerChar_def)

text \<open>
  C9, as the code has it.  On a cache miss the classifier answers in this order: chrome
  when \<open>data-testid\<close> contains "avatar" as written, or \<open>alt\<close> contains "avatar" or
  "profile" in any letter case; otherwise chrome when both dimensions of the bounding
  box are below 80; otherwise not chrome.  For an element without \<open>data-testid\<close> this is
  the specification's classifier.
\<close>

theorem classifier_order_on_cache_miss:
  assumes "\<not> mapHas c (cacheKey n)"
  shows "fst (isUIElement c n) =
           (if (\<exists>t. testid n = Some t \<and> strIncludes t ''avatar'') \<or>
               (\<exists>a. alt n = Some a \<and>
                    (strIncludes (toLowerCase a) ''avatar'' \<or>
                     strIncludes (toLowerCase a) ''profile''))
            then True
            else if rectWidth n < 80 \<and> rectHeight n < 80 then True
            else False) \<and>
         (testid n = None \<longrightarrow> fst (isUIElement c n) = classify_spec n)"
  using assms
  by (auto simp: isUIElement_def Let_def looksLikeUI_def hasMarker_def classify_spec_def
      specMarker_def split: option.splits)

theorem classifier_order_on_cache_miss_witness:
  "\<not> fst (isUIElement [] bannerNode) \<and> fst (isUIElement [] avatarNode) \<and>
   classify_spec avatarNode"
proof -
  have m1: "\<not> mapHas [] (cacheKey bannerNode)" by (simp add: mapHas_def)
  have m2: "\<not> mapHas [] (cacheKey avatarNode)" by (simp add: mapHas_def)
  from classifier_order_on_cache_miss [OF m1] classifier_order_on_cache_miss [OF m2]
  show ?thesis
    by (simp add: bannerNode_def avatarNode_def photoNode_def toLowerCase_def lowerChar_def
        classify_spec_def specMarker_def)
qed

lemma map_of_limitCache_new:
  assumes "\<not> mapHas c k"
  shows "map_of (limitCache (mapSet k v c)) k = Some v"
proof (cases "length (mapSet k v c) > 500")
  case False
  then show ?thesis using assms by (simp add: limitCache_def map_of_mapSet_new)
next
  case True
  from assms have ms: "mapSet k v c = c @ [(k, v)]" by (simp add: mapSet_def)
  with True obtain k0 v0 rest where c: "c = (k0, v0) # rest"
    by (cases c) auto
  with assms have ne: "k \<noteq> k0" by (auto simp: mapHas_def)
  from assms c have ms': "mapSet k v ((k0, v0) # rest) = (k0, v0) # rest @ [(k, v)]"
    by (simp add: mapSet_def)
  from assms c have miss: "map_of rest k = None"
    by (simp add: mapHas_map_of split: if_splits)
  from True have "limitCache (mapSet k v c) = mapDelete k0 ((k0, v0) # rest @ [(k, v)])"
    by (simp add: limitCache_def c ms')
  then show ?thesis
    using ne miss by (simp add: map_of_mapDelete map_add_Some_iff)
qed

text \<open>
  C10.  The cache is keyed by \<open>cacheKey\<close>: \<open>src\<close> where it is not empty, the first 100
  characters of \<open>outerHTML\<close> otherwise.  Once a node is classified with result \<open>r\<close>, the
  cache holds \<open>r\<close> under its key, and classifying any node with the same key returns
  \<open>r\<close> and leaves the cache as it is, whatever that node's markers and bounding box.
\<close>

theorem same_key_returns_cached_result:
  assumes "cacheKey n1 = cacheKey n2" and "isUIElement c n1 = (r, c1)"
  shows "cacheKey n1 = (if src n1 \<noteq> [] then src n1 else take 100 (outerHTML n1)) \<and>
         map_of c1 (cacheKey n1) = Some r \<and> isUIElement c1 n2 = (r, c1)"
proof -
  have key: "cacheKey n1 = (if src n1 \<noteq> [] then src n1 else take 100 (outerHTML n1))"
    by (simp add: cacheKey_def substring0_def)
  have cached: "map_of c1 (cacheKey n1) = Some r \<and> isUIElement c1 n2 = (r, c1)"
  proof (cases "mapHas c (cacheKey n1)")
    case True
    then obtain b where b: "map_of c (cacheKey n1) = Some b"
      by (auto simp: mapHas_map_of)
    with True assms(2) have "r = b" "c1 = c"
      by (simp_all add: isUIElement_def Let_def)
    with True b assms(1) show ?thesis
      by (simp add: isUIElement_def Let_def)
  next
    case False
    with assms(2) have c1: "c1 = limitCache (mapSet (cacheKey n1) r c)"
      by (auto simp: isUIElement_def Let_def)
    from map_of_limitCache_new [OF False] c1
    have hit: "map_of c1 (cacheKey n1) = Some r" by simp
    then have "mapHas c1 (cacheKey n2)" using assms(1) by (simp add: mapHas_map_of)
    with hit assms(1) show ?thesis
      by (simp add: isUIElement_def Let_def)
  qed
  from key cached show ?thesis by blast
qed

theorem same_key_returns_cached_result_witness:
  "fst (isUIElement [] avatarNode) \<and>
   isUIElement [] photoNode = (False, [(''https://pbs.twimg.com/media/a.jpg'', False)]) \<and>
   isUIElement [(''https://pbs.twimg.com/media/a.jpg'', False)] avatarNode
     = (False, [(''https://pbs.twimg.com/media/a.jpg'', False)])"
proof -
  have k: "cacheKey photoNode = cacheKey avatarNode"
    by (simp add: cacheKey_def photoNode_def avatarNode_def)
  have first: "isUIElement [] photoNode = (False, [(''https://pbs.twimg.com/media/a.jpg'', False)])"
    by (simp add: isUIElement_def looksLikeUI_def cacheKey_def photoNode_def mapHas_def
        hasMarker_def mapSet_def limitCache_def)
  have own: "fst (isUIElement [] avatarNode)"
    by (simp add: isUIElement_def looksLikeUI_def cacheKey_def photoNode_def avatarNode_def
        mapHas_def hasMarker_def toLowerCase_def lowerChar_def)
  from same_key_returns_cached_result [OF k first] own first show ?thesis by simp
qed

subsection \<open>The size of the classification cache\<close>

lemma length_limitCache: "length c \<le> 501 \<Longrightarrow> length (limitCache c) \<le> 500"
proof (cases "length c > 500")
  case False
  then show ?thesis by (simp add: limitCache_def)
next
  case True
  then obtain k0 v0 rest where c: "c = (k0, v0) # rest" by (cases c) auto
  assume "length c \<le> 501"
  with c have "length rest \<le> 500" by simp
  moreover have "length (mapDelete k0 c) \<le> length rest"
    by (simp add: c mapDelete_def)
  ultimately show ?thesis using True by (simp add: limitCache_def c)
qed

lemma length_isUIElement:
  "length c \<le> 500 \<Longrightarrow> length (snd (isUIElement c n)) \<le> 500"
  by (simp add: isUIElement_def Let_def mapSet_def length_limitCache split: option.splits)

lemma filterVideo_cache: "uiElementCache (engineOf (filterVideo e s)) = uiElementCache s"
  by (rule filterVideo_inv) simp_all

text \<open>
  X1.  The classification cache never grows beyond 500 entries: a classification of any
  node, and a whole scan, whether it returns or throws, started with at most 500
  entries end with at most 500.
\<close>

theorem cache_stays_within_500:
  assumes "length (uiElementCache s) \<le> 500"
  shows "length (snd (isUIElement (uiElementCache s) n)) \<le> 500 \<and>
         length (uiElementCache (engineOf (scanExistingContent now s))) \<le> 500"
proof -
  have "length (uiElementCache (engineOf (runScan now s))) \<le> 500"
  proof (rule runScan_inv)
    show "length (uiElementCache (limitFilteredElements (s\<lparr>lastScanTime := now\<rparr>))) \<le> 500"
      using assms by simp
  next
    fix e and t :: engine
    assume "length (uiElementCache t) \<le> 500"
    then show "length (uiElementCache (engineOf (filterVideo e t))) \<le> 500"
      by (simp add: filterVideo_cache)
  next
    fix e and t :: engine
    assume c: "length (uiElementCache t) \<le> 500"
    show "length (uiElementCache (engineOf (scanImage e t))) \<le> 500"
      by (rule scanImage_inv) (simp_all add: length_isUIElement [OF c])
  qed
  with assms show ?thesis
    by (simp add: length_isUIElement scanExistingContent_def)
qed

theorem cache_stays_within_500_witness:
  "length (snd (isUIElement (uiElementCache photoPage) photoNode)) \<le> 500 \<and>
   length (uiElementCache (engineOf (scanExistingContent 1700000000000 photoPage))) \<le> 500"
proof -
  have "length (uiElementCache photoPage) \<le> 500"
    by (simp add: photoPage_def newEngine_def)
  from cache_stays_within_500 [OF this] show ?thesis .
qed

subsection \<open>An image inside a hidden container\<close>

text \<open>
  X2.  The classifier measures an element on the page as the scan has left it.  On a
  page where a video player holds a photo of 600 by 400, one scan in mode \<open>both\<close>
  conceals the player in its video pass; the image pass then finds the photo with a box
  of 0 by 0, takes it for chrome, caches that verdict under its \<open>src\<close> and gives it no
  record.
\<close>

theorem photo_in_hidden_player_is_chrome:
  "\<not> fst (isUIElement (uiElementCache nestedPage) (view nestedPage 1)) \<and>
   \<not> threw (scanExistingContent 1700000000000 nestedPage) \<and>
   concealed (engineOf (scanExistingContent 1700000000000 nestedPage)) 0 \<and>
   1 \<notin> set (filteredElements (engineOf (scanExistingContent 1700000000000 nestedPage))) \<and>
   display (nodes (engineOf (scanExistingContent 1700000000000 nestedPage)) 1) = [] \<and>
   uiElementCache (engineOf (scanExistingContent 1700000000000 nestedPage))
     = [(''https://pbs.twimg.com/media/a.jpg'', True)]"
  by (simp add: nestedPage_def newEngine_def exampleSettings_def playerNode_def videoNode_def
      photoNode_def nestedRect_def scanExistingContent_def runScan_def
      limitFilteredElements_def shouldFilterVideos_def shouldFilterImages_def
      scanForVideos_def scanForImages_def filterVideo_def filterImage_def scanImage_def
      isWhitelisted_def shouldFilter_def replaceElement_def hideAndRecord_def view_def
      isUIElement_def cacheKey_def looksLikeUI_def hasMarker_def mapHas_def mapSet_def
      limitCache_def concealed_def setAdd_def Let_def)


end
